theory Spec2Isabelle
  imports Complex_Main
begin

section \<open>EmailService.js: data model\<close>

text \<open>
  The repository is one JavaScript file with three classes: \<open>EmailProvider\<close> (a mock
  backend that fails at random), \<open>RateLimiter\<close> (a sliding window of admission
  timestamps) and \<open>EmailService\<close> (idempotency guard, rate limiting, retry with
  exponential backoff and failover over two providers).

  What the code reads from its environment is made an explicit input of the model:
  \<^item> \<open>Date.now()\<close> is the argument \<open>now\<close> (milliseconds, an integer);
  \<^item> \<open>Math.random()\<close> is a stream \<open>rnd :: nat \<Rightarrow> real\<close> of draws, read in order; two
    doubles compare as their real values do, so the test \<open>Math.random() < failureRate\<close>
    is the comparison of two reals;
  \<^item> \<open>setTimeout\<close> and \<open>provider.sendEmail\<close> are recorded as events of a trace.
  JavaScript numbers that hold counters and timestamps are modelled as \<open>int\<close>
  (\<open>maxRetries\<close>, \<open>limit\<close> and \<open>intervalMs\<close> may be zero or negative, as the code accepts
  them); a provider is an \<open>EmailProvider\<close> or \<open>undefined\<close>. \<open>send\<close> is one call run from start to end with no other call in between, as in the
  file's driver, which awaits every call; \<open>send_enter\<close> and \<open>send_settle\<close> are its two
  parts that touch the service, for calls that overlap. Console output is not modelled.
\<close>

subsection \<open>EmailProvider\<close>

record EmailProvider =
  name :: string
  failureRate :: real

text \<open>
  \<open>sendEmail\<close> throws \<open>Error(name + " failed to send email")\<close> when the draw is below the
  failure rate and returns \<open>{ success: true, provider: name }\<close> otherwise. The thrown
  error is \<open>Inl\<close> of its message; the returned object is a record.
\<close>

record send_result =
  success :: bool
  provider :: string

definition sendEmail :: "EmailProvider \<Rightarrow> 'd \<Rightarrow> real \<Rightarrow> string + send_result" where
  "sendEmail p email r =
     (if r < failureRate p then Inl (name p @ '' failed to send email'')
      else Inr \<lparr>success = True, provider = name p\<rparr>)"

subsection \<open>RateLimiter\<close>

record RateLimiter =
  limit :: int
  intervalMs :: int
  timestamps :: "int list"

definition RateLimiter_new :: "int \<Rightarrow> int \<Rightarrow> RateLimiter" where
  "RateLimiter_new l i = \<lparr>limit = l, intervalMs = i, timestamps = []\<rparr>"

text \<open>
  \<open>isAllowed\<close> filters the stored timestamps, keeping those with \<open>now - ts < intervalMs\<close>,
  and stores the filtered array in both branches; it pushes \<open>now\<close> and returns true when
  fewer than \<open>limit\<close> are left.
\<close>

definition isAllowed :: "RateLimiter \<Rightarrow> int \<Rightarrow> bool \<times> RateLimiter" where
  "isAllowed rl now =
     (let ts = filter (\<lambda>ts. now - ts < intervalMs rl) (timestamps rl) in
      if int (length ts) < limit rl
      then (True, rl\<lparr>timestamps := ts @ [now]\<rparr>)
      else (False, rl\<lparr>timestamps := ts\<rparr>))"

subsection \<open>EmailService\<close>

text \<open>
  A status object is \<open>{status: 'sent', provider, attempts}\<close>, \<open>{status: 'failed', attempts}\<close>,
  \<open>{status: 'rate_limited', attempts}\<close> or \<open>{status: 'unknown'}\<close>.
\<close>

datatype status =
    Sent string int
  | Failed int
  | Rate_limited int
  | Unknown

text \<open>
  The only exception that leaves \<open>send\<close> is the \<open>TypeError\<close> of reading \<open>provider.name\<close>
  when the provider is \<open>undefined\<close>.
\<close>

datatype error = TypeError

datatype event = SendEmail nat | SetTimeout int

text \<open>
  A constructor argument that the caller leaves out is \<open>undefined\<close>: \<open>None\<close>. The
  providers are stored as they come; \<open>maxRetries\<close> has the default 3. \<open>sentEmails\<close> is a
  \<open>Set\<close>, \<open>statusMap\<close> a \<open>Map\<close>.
\<close>

record EmailService =
  providers :: "EmailProvider option list"
  maxRetries :: int
  sentEmails :: "string set"
  statusMap :: "string \<rightharpoonup> status"
  rateLimiter :: RateLimiter

definition EmailService_new ::
  "EmailProvider option \<Rightarrow> EmailProvider option \<Rightarrow> int option \<Rightarrow> EmailService" where
  "EmailService_new provider1 provider2 maxRetries_arg =
     \<lparr>providers = [provider1, provider2],
      maxRetries = (case maxRetries_arg of None \<Rightarrow> 3 | Some m \<Rightarrow> m),
      sentEmails = {},
      statusMap = Map.empty,
      rateLimiter = RateLimiter_new 5 10000\<rparr>"

text \<open>
  The \<open>while\<close> loop of \<open>send\<close> for the provider at index \<open>i\<close>. \<open>k\<close> counts the draws of
  \<open>Math.random\<close> read so far. The loop returns the status of a successful attempt, or
  \<open>None\<close> when it ends without one, with the new draw count and the events in order.
\<close>

function send_while ::
  "int \<Rightarrow> nat \<Rightarrow> EmailProvider \<Rightarrow> 'd \<Rightarrow> (nat \<Rightarrow> real) \<Rightarrow> int \<Rightarrow> int \<Rightarrow> nat
     \<Rightarrow> status option \<times> nat \<times> event list" where
  "send_while maxR i p emailData rnd attempts delay k =
     (if attempts < maxR then
        (case sendEmail p emailData (rnd k) of
           Inr result \<Rightarrow> (Some (Sent (provider result) (attempts + 1)), Suc k, [SendEmail i])
         | Inl err \<Rightarrow>
             (case send_while maxR i p emailData rnd (attempts + 1) (delay * 2) (Suc k) of
                (r, k', tr) \<Rightarrow> (r, k', SendEmail i # SetTimeout delay # tr)))
      else (None, k, []))"
  by pat_completeness auto
termination
  by (relation "measure (\<lambda>(maxR, i, p, emailData, rnd, attempts, delay, k). nat (maxR - attempts))")
     auto

declare send_while.simps [simp del]

text \<open>
  The \<open>for\<close> loop of \<open>send\<close> over the providers from index \<open>i\<close> on. Each provider starts
  with \<open>attempts = 0\<close> and \<open>delay = 100\<close>. \<open>Inr None\<close> is the loop ending with no provider
  having succeeded.
\<close>

fun send_for ::
  "int \<Rightarrow> EmailProvider option list \<Rightarrow> nat \<Rightarrow> 'd \<Rightarrow> (nat \<Rightarrow> real) \<Rightarrow> nat
     \<Rightarrow> (error + status option) \<times> nat \<times> event list" where
  "send_for maxR [] i emailData rnd k = (Inr None, k, [])"
| "send_for maxR (None # ps) i emailData rnd k = (Inl TypeError, k, [])"
| "send_for maxR (Some p # ps) i emailData rnd k =
     (case send_while maxR i p emailData rnd 0 100 k of
        (Some st, k', tr) \<Rightarrow> (Inr (Some st), k', tr)
      | (None, k', tr) \<Rightarrow>
          (case send_for maxR ps (Suc i) emailData rnd k' of
             (r, k'', tr') \<Rightarrow> (r, k'', tr @ tr')))"

text \<open>
  \<open>send\<close> returns what the promise settles to (\<open>Inl\<close> a rejection; \<open>Inr None\<close> is
  \<open>undefined\<close>, which \<open>Map.get\<close> gives for a missing key), the service after the call and
  the events of the call.
\<close>

definition send ::
  "EmailService \<Rightarrow> string \<Rightarrow> 'd \<Rightarrow> int \<Rightarrow> (nat \<Rightarrow> real)
     \<Rightarrow> (error + status option) \<times> EmailService \<times> event list" where
  "send s emailId emailData now rnd =
     (if emailId \<in> sentEmails s then (Inr (statusMap s emailId), s, [])
      else
        (case isAllowed (rateLimiter s) now of
           (False, rl) \<Rightarrow>
             (Inr (Some (Rate_limited 0)),
              s\<lparr>statusMap := (statusMap s)(emailId \<mapsto> Rate_limited 0), rateLimiter := rl\<rparr>,
              [])
         | (True, rl) \<Rightarrow>
             (case send_for (maxRetries s) (providers s) 0 emailData rnd 0 of
                (Inl e, k, tr) \<Rightarrow> (Inl e, s\<lparr>rateLimiter := rl\<rparr>, tr)
              | (Inr (Some st), k, tr) \<Rightarrow>
                  (Inr (Some st),
                   s\<lparr>sentEmails := insert emailId (sentEmails s),
                     statusMap := (statusMap s)(emailId \<mapsto> st),
                     rateLimiter := rl\<rparr>,
                   tr)
              | (Inr None, k, tr) \<Rightarrow>
                  (Inr (Some (Failed (maxRetries s * int (length (providers s))))),
                   s\<lparr>statusMap :=
                       (statusMap s)(emailId \<mapsto> Failed (maxRetries s * int (length (providers s)))),
                     rateLimiter := rl\<rparr>,
                   tr))))"

definition getStatus :: "EmailService \<Rightarrow> string \<Rightarrow> status" where
  "getStatus s emailId = (case statusMap s emailId of Some st \<Rightarrow> st | None \<Rightarrow> Unknown)"

text \<open>
  \<open>send\<close> is an \<open>async\<close> function: it runs without interruption up to its first \<open>await\<close>
  and between two of them, and other calls can run while it waits for a provider or a
  timeout. Its body reads and writes the service in two places only. \<open>send_enter\<close> is the
  part before the provider loop: the test of \<open>sentEmails\<close> and the check of the limiter; it
  either answers the call or lets it go on to the loop. \<open>send_settle\<close> is the part after the
  loop, run on the service as it is by then: the writes of a success, the writes of the
  failure status, or nothing when the loop has thrown. The loop itself reads only
  \<open>providers\<close> and \<open>maxRetries\<close>, which no code writes.
\<close>

datatype entered = Answered "status option" | Dispatching

definition send_enter :: "EmailService \<Rightarrow> string \<Rightarrow> int \<Rightarrow> entered \<times> EmailService" where
  "send_enter s emailId now =
     (if emailId \<in> sentEmails s then (Answered (statusMap s emailId), s)
      else
        (case isAllowed (rateLimiter s) now of
           (False, rl) \<Rightarrow>
             (Answered (Some (Rate_limited 0)),
              s\<lparr>statusMap := (statusMap s)(emailId \<mapsto> Rate_limited 0), rateLimiter := rl\<rparr>)
         | (True, rl) \<Rightarrow> (Dispatching, s\<lparr>rateLimiter := rl\<rparr>)))"

definition send_settle ::
  "EmailService \<Rightarrow> string \<Rightarrow> error + status option \<Rightarrow> (error + status option) \<times> EmailService" where
  "send_settle s emailId r =
     (case r of
        Inl e \<Rightarrow> (Inl e, s)
      | Inr (Some st) \<Rightarrow>
          (Inr (Some st),
           s\<lparr>sentEmails := insert emailId (sentEmails s),
             statusMap := (statusMap s)(emailId \<mapsto> st)\<rparr>)
      | Inr None \<Rightarrow>
          (Inr (Some (Failed (maxRetries s * int (length (providers s))))),
           s\<lparr>statusMap :=
               (statusMap s)(emailId \<mapsto> Failed (maxRetries s * int (length (providers s))))\<rparr>))"

text \<open>
  A run of the service: calls of \<open>send\<close> one after the other, each with its identity,
  payload, clock reading and draws.
\<close>

type_synonym 'd request = "string \<times> 'd \<times> int \<times> (nat \<Rightarrow> real)"

fun sends :: "EmailService \<Rightarrow> 'd request list \<Rightarrow> EmailService" where
  "sends s [] = s"
| "sends s ((emailId, emailData, now, rnd) # rs) =
     sends (fst (snd (send s emailId emailData now rnd))) rs"

text \<open>A run of the rate limiter: the decisions of successive checks and the limiter after them.\<close>

fun isAllowed_seq :: "RateLimiter \<Rightarrow> int list \<Rightarrow> bool list \<times> RateLimiter" where
  "isAllowed_seq rl [] = ([], rl)"
| "isAllowed_seq rl (now # nows) =
     (case isAllowed rl now of
        (b, rl') \<Rightarrow> (case isAllowed_seq rl' nows of (bs, rl'') \<Rightarrow> (b # bs, rl'')))"

subsection \<open>The driver's providers and fixed draws\<close>

text \<open>The two providers that the file's driver code constructs.\<close>

definition MockProvider1 :: EmailProvider where
  "MockProvider1 = \<lparr>name = ''MockProvider1'', failureRate = 7 / 10\<rparr>"

definition MockProvider2 :: EmailProvider where
  "MockProvider2 = \<lparr>name = ''MockProvider2'', failureRate = 5 / 10\<rparr>"

text \<open>The service that the driver code constructs: \<open>new EmailService(provider1, provider2)\<close>.\<close>

definition emailService :: EmailService where
  "emailService = EmailService_new (Some MockProvider1) (Some MockProvider2) None"

text \<open>
  Streams of draws for concrete runs: the same draw every time, and a given list of draws
  followed by draws of 1 (which no failure rate up to 1 exceeds).
\<close>

definition always :: "real \<Rightarrow> nat \<Rightarrow> real" where
  "always r k = r"

definition draws :: "real list \<Rightarrow> nat \<Rightarrow> real" where
  "draws rs k = (if k < length rs then rs ! k else 1)"

text \<open>
  Two overlapping calls for the identity \<open>email-1\<close> on the driver's service. The first
  enters at clock reading 0 and its providers fail every attempt; while it waits, the
  second enters at reading 1, succeeds at once and stores \<open>Sent\<close>; then the first ends its
  loop and stores \<open>Failed\<close>.
\<close>

definition overlapped :: EmailService where
  "overlapped =
     (let s1 = snd (send_enter emailService ''email-1'' 0);
          s2 = snd (send_enter s1 ''email-1'' 1);
          s3 = snd (send_settle s2 ''email-1''
                 (fst (send_for (maxRetries s2) (providers s2) 0 ''Duplicate'' (always 1) 0)));
          s4 = snd (send_settle s3 ''email-1''
                 (fst (send_for (maxRetries s1) (providers s1) 0 ''Hello'' (always (1/10)) 0)))
      in s4)"

section \<open>Notions used in the statements\<close>

text \<open>The clock readings of the checks that were allowed, in order.\<close>

definition admitted :: "bool list \<Rightarrow> int list \<Rightarrow> int list" where
  "admitted bs nows = map snd (filter fst (zip bs nows))"

text \<open>
  \<open>in_window i T t\<close>: the reading \<open>t\<close> lies in the window of length \<open>i\<close> that ends at \<open>T\<close>,
  with the age test of the code (\<open>T - t < i\<close>).
\<close>

definition in_window :: "int \<Rightarrow> int \<Rightarrow> int \<Rightarrow> bool" where
  "in_window i T t = (t \<le> T \<and> T - t < i)"

text \<open>
  The events of \<open>n\<close> failed attempts in a row on the provider at index \<open>i\<close>, the first
  followed by a timeout of \<open>d\<close>: each attempt is followed by a timeout, and the timeouts
  double.
\<close>

fun retries :: "nat \<Rightarrow> int \<Rightarrow> nat \<Rightarrow> event list" where
  "retries i d 0 = []"
| "retries i d (Suc n) = SendEmail i # SetTimeout d # retries i (d * 2) n"

text \<open>The events of the providers at the indices \<open>js\<close> each failing \<open>n\<close> times.\<close>

definition exhausted :: "nat list \<Rightarrow> nat \<Rightarrow> event list" where
  "exhausted js n = concat (map (\<lambda>j. retries j 100 n) js)"

text \<open>The invariant of the limiter after the checks at \<open>nows\<close>, \<open>adm\<close> being the admitted ones.\<close>

definition limiter_inv :: "int \<Rightarrow> int \<Rightarrow> int list \<Rightarrow> RateLimiter \<Rightarrow> int list \<Rightarrow> bool" where
  "limiter_inv l i nows rl adm =
     (limit rl = l \<and> intervalMs rl = i \<and> set adm \<subseteq> set nows \<and>
      (\<forall>T. (\<forall>n\<in>set nows. n \<le> T) \<longrightarrow>
           filter (\<lambda>t. T - t < i) (timestamps rl) = filter (\<lambda>t. T - t < i) adm) \<and>
      int (length (timestamps rl)) \<le> l \<and>
      (\<forall>T. int (length (filter (in_window i T) adm)) \<le> l) \<and>
      (nows \<noteq> [] \<longrightarrow> (\<forall>t\<in>set (timestamps rl). last nows - t < i \<or> t = last nows)))"

text \<open>
  The invariant that ties the two stores of the service: an identity is in \<open>sentEmails\<close>
  exactly when its stored status is a \<open>Sent\<close>.
\<close>

definition consistent :: "EmailService \<Rightarrow> bool" where
  "consistent s = (\<forall>emailId. emailId \<in> sentEmails s \<longleftrightarrow> (\<exists>pn a. statusMap s emailId = Some (Sent pn a)))"

section \<open>The rate limiter\<close>

lemma isAllowed_seq_length_eq:
  "isAllowed_seq rl nows = (bs, rl') \<Longrightarrow> length bs = length nows"
  by (induction nows arbitrary: rl bs) (auto split: prod.splits)

lemma isAllowed_seq_snoc:
  "isAllowed_seq rl (nows @ [x]) =
     (case isAllowed_seq rl nows of (bs, rl') \<Rightarrow>
        (case isAllowed rl' x of (b, rl'') \<Rightarrow> (bs @ [b], rl'')))"
  by (induction nows arbitrary: rl) (auto split: prod.splits)

lemma admitted_snoc:
  "length bs = length nows \<Longrightarrow>
   admitted (bs @ [b]) (nows @ [x]) = admitted bs nows @ (if b then [x] else [])"
  by (simp add: admitted_def)

lemma length_filter_mono:
  "(\<And>x. x \<in> set xs \<Longrightarrow> P x \<Longrightarrow> Q x) \<Longrightarrow> length (filter P xs) \<le> length (filter Q xs)"
  by (induction xs) auto

text \<open>One check at a reading that is not before the earlier ones keeps the invariant.\<close>

lemma limiter_inv_step:
  assumes inv: "limiter_inv l i nows rl adm" and le: "\<forall>n\<in>set nows. n \<le> x"
    and step: "isAllowed rl x = (b, rl')"
  shows "limiter_inv l i (nows @ [x]) rl' (adm @ (if b then [x] else []))"
proof -
  let ?ts = "filter (\<lambda>t. x - t < i) (timestamps rl)"
  from inv have cfg: "limit rl = l" "intervalMs rl = i" and sub: "set adm \<subseteq> set nows"
    and eq: "\<And>T. (\<forall>n\<in>set nows. n \<le> T) \<Longrightarrow>
           filter (\<lambda>t. T - t < i) (timestamps rl) = filter (\<lambda>t. T - t < i) adm"
    and win: "\<And>T. int (length (filter (in_window i T) adm)) \<le> l"
    and len: "int (length (timestamps rl)) \<le> l"
    by (auto simp: limiter_inv_def)
  have ts_eq: "?ts = filter (\<lambda>t. x - t < i) adm" using eq le by simp
  have refilter: "filter (\<lambda>t. T - t < i) ?ts = filter (\<lambda>t. T - t < i) adm" if "x \<le> T" for T
  proof -
    have "filter (\<lambda>t. T - t < i) ?ts = filter (\<lambda>t. T - t < i) (filter (\<lambda>t. x - t < i) adm)"
      by (simp only: ts_eq)
    also have "\<dots> = filter (\<lambda>t. T - t < i) adm"
      using that by (auto intro: filter_cong)
    finally show ?thesis .
  qed
  show ?thesis
  proof (cases "int (length ?ts) < l")
    case True
    with step cfg have b: "b" and rl': "rl' = rl\<lparr>timestamps := ?ts @ [x]\<rparr>"
      by (auto simp: isAllowed_def Let_def)
    have w: "int (length (filter (in_window i T) (adm @ [x]))) \<le> l" for T
    proof (cases "x \<le> T")
      case False
      then have "filter (in_window i T) (adm @ [x]) = filter (in_window i T) adm"
        by (simp add: in_window_def)
      then show ?thesis using win by simp
    next
      case xT: True
      have "length (filter (in_window i T) adm) \<le> length (filter (\<lambda>t. x - t < i) adm)"
        using xT by (intro length_filter_mono) (auto simp: in_window_def)
      then have "int (length (filter (in_window i T) adm)) < l"
        using True ts_eq by simp
      then show ?thesis by simp
    qed
    show ?thesis
      unfolding limiter_inv_def using b rl' cfg sub True w refilter by auto
  next
    case False
    with step cfg have b: "\<not> b" and rl': "rl' = rl\<lparr>timestamps := ?ts\<rparr>"
      by (auto simp: isAllowed_def Let_def)
    have "length ?ts \<le> length (timestamps rl)" by simp
    then have "int (length ?ts) \<le> l" using len by linarith
    then show ?thesis
      unfolding limiter_inv_def using b rl' cfg sub win refilter by auto
  qed
qed

lemma limiter_inv_run:
  assumes "sorted nows" "0 \<le> l"
  shows "limiter_inv l i nows (snd (isAllowed_seq (RateLimiter_new l i) nows))
           (admitted (fst (isAllowed_seq (RateLimiter_new l i) nows)) nows)"
  using assms(1)
proof (induction nows rule: rev_induct)
  case Nil
  then show ?case using assms(2)
    by (simp add: limiter_inv_def RateLimiter_new_def admitted_def)
next
  case (snoc x nows)
  obtain bs rl where run: "isAllowed_seq (RateLimiter_new l i) nows = (bs, rl)"
    by (cases "isAllowed_seq (RateLimiter_new l i) nows")
  obtain b rl' where st: "isAllowed rl x = (b, rl')" by (cases "isAllowed rl x")
  from snoc.prems have s: "sorted nows" and le: "\<forall>n\<in>set nows. n \<le> x"
    by (auto simp: sorted_append)
  have lb: "length bs = length nows" using isAllowed_seq_length_eq [OF run] .
  from snoc.IH [OF s] run have "limiter_inv l i nows rl (admitted bs nows)" by simp
  from limiter_inv_step [OF this le st] show ?case
    by (simp add: isAllowed_seq_snoc run st admitted_snoc lb)
qed

text \<open>
  C5. Take a limiter constructed with a limit \<open>l \<ge> 0\<close> and any interval \<open>i\<close>, and checks at
  clock readings that do not go backwards. Then (1) for every instant \<open>T\<close>, the allowed
  checks whose readings lie in the window of length \<open>i\<close> ending at \<open>T\<close> are at most \<open>l\<close>;
  (2) after the last decision the stored array has at most \<open>l\<close> entries; (3) after a check
  every stored entry is younger than \<open>i\<close> at that check, or is the entry the check has just
  pushed: all others were pruned.
\<close>

theorem rate_limiter_window_bound:
  assumes "sorted nows" and "0 \<le> l"
  shows "int (length (filter (in_window i T)
                 (admitted (fst (isAllowed_seq (RateLimiter_new l i) nows)) nows))) \<le> l
       \<and> int (length (timestamps (snd (isAllowed_seq (RateLimiter_new l i) nows)))) \<le> l
       \<and> (nows \<noteq> [] \<longrightarrow>
            (\<forall>t\<in>set (timestamps (snd (isAllowed_seq (RateLimiter_new l i) nows))).
               last nows - t < i \<or> t = last nows))"
  using limiter_inv_run [OF assms, of i] unfolding limiter_inv_def by blast

theorem rate_limiter_window_bound_witness:
  "sorted [0, 1, 2, 9 :: int] \<and> (0 :: int) \<le> 2
   \<and> isAllowed_seq (RateLimiter_new 2 10) [0, 1, 2, 9]
       = ([True, True, False, False], \<lparr>limit = 2, intervalMs = 10, timestamps = [0, 1]\<rparr>)
   \<and> int (length (filter (in_window 10 9)
            (admitted (fst (isAllowed_seq (RateLimiter_new 2 10) [0, 1, 2, 9])) [0, 1, 2, 9]))) \<le> 2
   \<and> int (length (timestamps (snd (isAllowed_seq (RateLimiter_new 2 10) [0, 1, 2, 9])))) \<le> 2"
  using rate_limiter_window_bound [of "[0, 1, 2, 9]" 2 10 9]
  by (simp add: RateLimiter_new_def isAllowed_def)

subsection \<open>Limit 0 and interval 0\<close>

lemma isAllowed_limit [simp]: "limit (snd (isAllowed rl now)) = limit rl"
  and isAllowed_intervalMs [simp]: "intervalMs (snd (isAllowed rl now)) = intervalMs rl"
  by (simp_all add: isAllowed_def Let_def)

lemma isAllowed_limit_zero: "limit rl = 0 \<Longrightarrow> fst (isAllowed rl now) = False"
  by (simp add: isAllowed_def Let_def)

lemma isAllowed_seq_limit_zero:
  "limit rl = 0 \<Longrightarrow> fst (isAllowed_seq rl nows) = replicate (length nows) False"
proof (induction nows arbitrary: rl)
  case Nil
  then show ?case by simp
next
  case (Cons now nows)
  obtain b rl' where st: "isAllowed rl now = (b, rl')" by (cases "isAllowed rl now")
  have "\<not> b" using isAllowed_limit_zero [OF Cons.prems, of now] st by simp
  moreover have "limit rl' = 0" using isAllowed_limit [of rl now] st Cons.prems by simp
  ultimately show ?case using Cons.IH [of rl'] st by (auto split: prod.splits)
qed

lemma isAllowed_interval_zero:
  assumes "intervalMs rl = 0" and "\<forall>t\<in>set (timestamps rl). t \<le> now"
  shows "isAllowed rl now =
           (0 < limit rl, rl\<lparr>timestamps := (if 0 < limit rl then [now] else [])\<rparr>)"
proof -
  have "filter (\<lambda>ts. now - ts < intervalMs rl) (timestamps rl) = []"
    using assms by (auto simp: filter_empty_conv)
  then show ?thesis by (simp add: isAllowed_def)
qed

lemma isAllowed_seq_interval_zero:
  assumes "intervalMs rl = 0" and "0 < limit rl" and "sorted nows"
    and "\<forall>t\<in>set (timestamps rl). \<forall>n\<in>set nows. t \<le> n"
  shows "isAllowed_seq rl nows =
           (replicate (length nows) True,
            rl\<lparr>timestamps := (if nows = [] then timestamps rl else [last nows])\<rparr>)"
  using assms
proof (induction nows arbitrary: rl)
  case Nil
  then show ?case by simp
next
  case (Cons now nows)
  let ?rl' = "rl\<lparr>timestamps := [now]\<rparr>"
  have st: "isAllowed rl now = (True, ?rl')"
    using isAllowed_interval_zero [of rl now] Cons.prems by simp
  have "isAllowed_seq ?rl' nows =
           (replicate (length nows) True,
            ?rl'\<lparr>timestamps := (if nows = [] then timestamps ?rl' else [last nows])\<rparr>)"
    using Cons.prems by (intro Cons.IH) auto
  then show ?case using st by simp
qed

text \<open>
  C8. A limiter constructed with limit 0 denies every check, whatever the interval and
  the clock. A limiter constructed with interval 0 and a limit \<open>l > 0\<close> allows every check
  of a clock that does not go backwards, and keeps only the reading of the last check. In
  any state with interval 0 whose stored readings are not in the future, a check prunes
  every stored reading. The constructor takes both configurations: it has no failing
  branch.
\<close>

theorem rate_limiter_edge_configurations:
  "fst (isAllowed_seq (RateLimiter_new 0 i) nows) = replicate (length nows) False
   \<and> (sorted nows \<and> 0 < l \<longrightarrow>
        isAllowed_seq (RateLimiter_new l 0) nows =
          (replicate (length nows) True,
           \<lparr>limit = l, intervalMs = 0, timestamps = (if nows = [] then [] else [last nows])\<rparr>))
   \<and> (intervalMs rl = 0 \<and> (\<forall>t\<in>set (timestamps rl). t \<le> now) \<longrightarrow>
        isAllowed rl now = (0 < limit rl, rl\<lparr>timestamps := (if 0 < limit rl then [now] else [])\<rparr>))"
proof -
  have a: "fst (isAllowed_seq (RateLimiter_new 0 i) nows) = replicate (length nows) False"
    by (rule isAllowed_seq_limit_zero) (simp add: RateLimiter_new_def)
  have b: "isAllowed_seq (RateLimiter_new l 0) nows =
          (replicate (length nows) True,
           \<lparr>limit = l, intervalMs = 0, timestamps = (if nows = [] then [] else [last nows])\<rparr>)"
    if "sorted nows" "0 < l"
    using isAllowed_seq_interval_zero [of "RateLimiter_new l 0" nows] that
    by (simp add: RateLimiter_new_def)
  show ?thesis using a b isAllowed_interval_zero [of rl now] by blast
qed

theorem rate_limiter_edge_configurations_witness:
  "fst (isAllowed_seq (RateLimiter_new 0 10000) [0, 5, 20000]) = [False, False, False]
   \<and> sorted [0, 0, 7 :: int] \<and> (0 :: int) < 1
   \<and> isAllowed_seq (RateLimiter_new 1 0) [0, 0, 7]
        = ([True, True, True], \<lparr>limit = 1, intervalMs = 0, timestamps = [7]\<rparr>)
   \<and> isAllowed \<lparr>limit = 1, intervalMs = 0, timestamps = [3, 4]\<rparr> 4
        = (True, \<lparr>limit = 1, intervalMs = 0, timestamps = [4]\<rparr>)"
  using rate_limiter_edge_configurations [of 10000 "[0, 5, 20000]" 1]
    rate_limiter_edge_configurations [of 0 "[0, 0, 7]" 1 "\<lparr>limit = 1, intervalMs = 0, timestamps = [3, 4]\<rparr>" 4]
  by simp

section \<open>The retry loop\<close>

lemma sendEmail_Inl_iff: "(\<exists>err. sendEmail p d r = Inl err) \<longleftrightarrow> r < failureRate p"
  by (simp add: sendEmail_def)

lemma sendEmail_Inr: "sendEmail p d r = Inr res \<Longrightarrow> \<not> r < failureRate p \<and> provider res = name p"
  by (auto simp: sendEmail_def split: if_splits)

lemma send_while_Some:
  "send_while maxR i p d rnd a delay k = (Some st, k', tr) \<Longrightarrow>
   \<exists>n. a + int n < maxR \<and> st = Sent (name p) (a + int n + 1) \<and> k' = k + n + 1 \<and>
       tr = retries i delay n @ [SendEmail i] \<and>
       (\<forall>j<n. rnd (k + j) < failureRate p) \<and> \<not> rnd (k + n) < failureRate p"
proof (induction maxR i p d rnd a delay k arbitrary: st k' tr rule: send_while.induct)
  case (1 maxR i p d rnd a delay k)
  from "1.prems" have lt: "a < maxR"
    by (subst (asm) send_while.simps) (simp split: if_splits)
  show ?case
  proof (cases "sendEmail p d (rnd k)")
    case (Inr res)
    with "1.prems" lt have "st = Sent (provider res) (a + 1)" "k' = Suc k" "tr = [SendEmail i]"
      by (subst (asm) send_while.simps, simp)+
    with sendEmail_Inr [OF Inr] lt show ?thesis
      by (intro exI [of _ 0]) simp
  next
    case (Inl err)
    obtain r k2 tr2 where rec: "send_while maxR i p d rnd (a + 1) (delay * 2) (Suc k) = (r, k2, tr2)"
      by (cases "send_while maxR i p d rnd (a + 1) (delay * 2) (Suc k)")
    with "1.prems" lt Inl have eqs: "r = Some st" "k' = k2" "tr = SendEmail i # SetTimeout delay # tr2"
      by (subst (asm) send_while.simps, simp)+
    from "1.IH" [OF lt Inl, of st k2 tr2] rec eqs
    obtain n where n: "a + 1 + int n < maxR" "st = Sent (name p) (a + 1 + int n + 1)"
      "k2 = Suc k + n + 1" "tr2 = retries i (delay * 2) n @ [SendEmail i]"
      "\<forall>j<n. rnd (Suc k + j) < failureRate p" "\<not> rnd (Suc k + n) < failureRate p"
      by auto
    have f: "rnd k < failureRate p" using Inl sendEmail_Inl_iff [of p d "rnd k"] by blast
    show ?thesis
      using n eqs f by (intro exI [of _ "Suc n"]) (auto simp: less_Suc_eq_0_disj)
  qed
qed

lemma send_while_None:
  "send_while maxR i p d rnd a delay k = (None, k', tr) \<Longrightarrow>
   k' = k + nat (maxR - a) \<and> tr = retries i delay (nat (maxR - a)) \<and>
   (\<forall>j<nat (maxR - a). rnd (k + j) < failureRate p)"
proof (induction maxR i p d rnd a delay k arbitrary: k' tr rule: send_while.induct)
  case (1 maxR i p d rnd a delay k)
  show ?case
  proof (cases "a < maxR")
    case False
    with "1.prems" show ?thesis
      by (subst (asm) send_while.simps) simp
  next
    case lt: True
    show ?thesis
    proof (cases "sendEmail p d (rnd k)")
      case (Inr res)
      with "1.prems" lt show ?thesis
        by (subst (asm) send_while.simps) simp
    next
      case (Inl err)
      obtain r k2 tr2 where rec: "send_while maxR i p d rnd (a + 1) (delay * 2) (Suc k) = (r, k2, tr2)"
        by (cases "send_while maxR i p d rnd (a + 1) (delay * 2) (Suc k)")
      with "1.prems" lt Inl have eqs: "r = None" "k' = k2" "tr = SendEmail i # SetTimeout delay # tr2"
        by (subst (asm) send_while.simps, simp)+
      from "1.IH" [OF lt Inl, of k2 tr2] rec eqs
      have n: "k2 = Suc k + nat (maxR - (a + 1))" "tr2 = retries i (delay * 2) (nat (maxR - (a + 1)))"
        "\<forall>j<nat (maxR - (a + 1)). rnd (Suc k + j) < failureRate p"
        by auto
      have f: "rnd k < failureRate p" using Inl sendEmail_Inl_iff [of p d "rnd k"] by blast
      have m: "nat (maxR - a) = Suc (nat (maxR - (a + 1)))" using lt by simp
      show ?thesis
        unfolding m using n eqs f by (auto simp: less_Suc_eq_0_disj)
    qed
  qed
qed

section \<open>The failover loop\<close>

lemma exhausted_Cons: "exhausted (j # js) n = retries j 100 n @ exhausted js n"
  by (simp add: exhausted_def)

lemma upt_shift: "[i..<i + Suc n] = i # [Suc i..<Suc i + n]"
  by (simp add: upt_rec)

lemma send_for_Inl:
  "send_for maxR ps i d rnd k = (Inl e, k', tr) \<Longrightarrow> None \<in> set ps"
proof (induction ps arbitrary: i k k' tr)
  case Nil
  then show ?case by simp
next
  case (Cons q ps)
  show ?case
  proof (cases q)
    case None
    then show ?thesis by simp
  next
    case (Some p)
    obtain r k1 tr1 where w: "send_while maxR i p d rnd 0 100 k = (r, k1, tr1)"
      by (cases "send_while maxR i p d rnd 0 100 k")
    obtain r2 k2 tr2 where f: "send_for maxR ps (Suc i) d rnd k1 = (r2, k2, tr2)"
      by (cases "send_for maxR ps (Suc i) d rnd k1")
    from Cons.prems Some w f have "r = None" "r2 = Inl e"
      by (auto split: option.splits)
    with Cons.IH f show ?thesis by auto
  qed
qed

lemma send_for_None:
  "send_for maxR ps i d rnd k = (Inr None, k', tr) \<Longrightarrow>
   None \<notin> set ps \<and> k' = k + length ps * nat maxR \<and>
   tr = exhausted [i..<i + length ps] (nat maxR) \<and>
   (\<forall>j<length ps. \<forall>m<nat maxR. \<forall>P. ps ! j = Some P \<longrightarrow> rnd (k + j * nat maxR + m) < failureRate P)"
proof (induction ps arbitrary: i k k' tr)
  case Nil
  then show ?case by (simp add: exhausted_def)
next
  case (Cons q ps)
  from Cons.prems obtain p where Some: "q = Some p" by (cases q) auto
  obtain r k1 tr1 where w: "send_while maxR i p d rnd 0 100 k = (r, k1, tr1)"
    by (cases "send_while maxR i p d rnd 0 100 k")
  obtain r2 k2 tr2 where f: "send_for maxR ps (Suc i) d rnd k1 = (r2, k2, tr2)"
    by (cases "send_for maxR ps (Suc i) d rnd k1")
  from Cons.prems Some w f have eqs: "r = None" "r2 = Inr None" "k' = k2" "tr = tr1 @ tr2"
    by (auto split: option.splits)
  from send_while_None [of maxR i p d rnd 0 100 k k1 tr1] w eqs
  have w1: "k1 = k + nat maxR" "tr1 = retries i 100 (nat maxR)"
    "\<forall>m<nat maxR. rnd (k + m) < failureRate p"
    by auto
  from Cons.IH [of "Suc i" k1 k2 tr2] f eqs
  have r1: "None \<notin> set ps" "k2 = k1 + length ps * nat maxR"
    "tr2 = exhausted [Suc i..<Suc i + length ps] (nat maxR)"
    "\<forall>j<length ps. \<forall>m<nat maxR. \<forall>P. ps ! j = Some P \<longrightarrow> rnd (k1 + j * nat maxR + m) < failureRate P"
    by auto
  have tr: "tr = exhausted [i..<i + length (q # ps)] (nat maxR)"
    using eqs w1 r1 by (simp only: length_Cons upt_shift exhausted_Cons)
  have dr: "rnd (k + j * nat maxR + m) < failureRate P"
    if "j < length (q # ps)" "m < nat maxR" "(q # ps) ! j = Some P" for j m P
  proof (cases j)
    case 0
    with that Some w1 show ?thesis by simp
  next
    case (Suc j')
    with that r1(4) have "rnd (k1 + j' * nat maxR + m) < failureRate P" by simp
    then show ?thesis using Suc w1(1) by (simp add: add.assoc add.left_commute)
  qed
  show ?case using Some r1 eqs w1 tr dr by simp
qed

lemma send_for_Some:
  "send_for maxR ps i d rnd k = (Inr (Some st), k', tr) \<Longrightarrow>
   \<exists>j n P. j < length ps \<and> ps ! j = Some P \<and> int n < maxR \<and> st = Sent (name P) (int n + 1) \<and>
     tr = exhausted [i..<i + j] (nat maxR) @ retries (i + j) 100 n @ [SendEmail (i + j)] \<and>
     k' = k + j * nat maxR + n + 1 \<and>
     (\<forall>m<n. rnd (k + j * nat maxR + m) < failureRate P) \<and>
     \<not> rnd (k + j * nat maxR + n) < failureRate P"
proof (induction ps arbitrary: i k k' tr)
  case Nil
  then show ?case by simp
next
  case (Cons q ps)
  from Cons.prems obtain p where Some: "q = Some p" by (cases q) auto
  obtain r k1 tr1 where w: "send_while maxR i p d rnd 0 100 k = (r, k1, tr1)"
    by (cases "send_while maxR i p d rnd 0 100 k")
  show ?case
  proof (cases r)
    case (Some st1)
    with Cons.prems \<open>q = Some p\<close> w have eqs: "st1 = st" "k' = k1" "tr = tr1" by auto
    from send_while_Some [of maxR i p d rnd 0 100 k st k1 tr1] w Some eqs
    obtain n where "int n < maxR" "st = Sent (name p) (int n + 1)" "k1 = k + n + 1"
      "tr1 = retries i 100 n @ [SendEmail i]" "\<forall>j<n. rnd (k + j) < failureRate p"
      "\<not> rnd (k + n) < failureRate p"
      by auto
    then show ?thesis using eqs \<open>q = Some p\<close>
      by (intro exI [of _ 0] exI [of _ n] exI [of _ p]) (simp add: exhausted_def)
  next
    case None
    obtain r2 k2 tr2 where f: "send_for maxR ps (Suc i) d rnd k1 = (r2, k2, tr2)"
      by (cases "send_for maxR ps (Suc i) d rnd k1")
    from Cons.prems \<open>q = Some p\<close> w f None
    have eqs: "r2 = Inr (Some st)" "k' = k2" "tr = tr1 @ tr2" by auto
    from send_while_None [of maxR i p d rnd 0 100 k k1 tr1] w None
    have w1: "k1 = k + nat maxR" "tr1 = retries i 100 (nat maxR)" by auto
    from Cons.IH [of "Suc i" k1 k2 tr2] f eqs
    obtain j n P where r1: "j < length ps" "ps ! j = Some P" "int n < maxR"
      "st = Sent (name P) (int n + 1)"
      "tr2 = exhausted [Suc i..<Suc i + j] (nat maxR) @ retries (Suc i + j) 100 n @ [SendEmail (Suc i + j)]"
      "k2 = k1 + j * nat maxR + n + 1"
      "\<forall>m<n. rnd (k1 + j * nat maxR + m) < failureRate P"
      "\<not> rnd (k1 + j * nat maxR + n) < failureRate P"
      by blast
    have idx: "k1 + j * nat maxR = k + Suc j * nat maxR" using w1 by simp
    have tr: "tr = exhausted [i..<i + Suc j] (nat maxR) @ retries (i + Suc j) 100 n @ [SendEmail (i + Suc j)]"
      using eqs w1 r1 by (simp only: upt_shift exhausted_Cons) simp
    show ?thesis
      using r1 tr eqs idx
      by (intro exI [of _ "Suc j"] exI [of _ n] exI [of _ P]) (simp del: mult_Suc)
  qed
qed

section \<open>The branches of send\<close>

lemma send_skip:
  "emailId \<in> sentEmails s \<Longrightarrow> send s emailId d now rnd = (Inr (statusMap s emailId), s, [])"
  by (simp add: send_def)

lemma send_limited:
  "emailId \<notin> sentEmails s \<Longrightarrow> isAllowed (rateLimiter s) now = (False, rl) \<Longrightarrow>
   send s emailId d now rnd =
     (Inr (Some (Rate_limited 0)),
      s\<lparr>statusMap := (statusMap s)(emailId \<mapsto> Rate_limited 0), rateLimiter := rl\<rparr>, [])"
  by (simp add: send_def)

lemma send_rejected:
  "emailId \<notin> sentEmails s \<Longrightarrow> isAllowed (rateLimiter s) now = (True, rl) \<Longrightarrow>
   send_for (maxRetries s) (providers s) 0 d rnd 0 = (Inl e, k, tr) \<Longrightarrow>
   send s emailId d now rnd = (Inl e, s\<lparr>rateLimiter := rl\<rparr>, tr)"
  by (simp add: send_def)

lemma send_sent:
  "emailId \<notin> sentEmails s \<Longrightarrow> isAllowed (rateLimiter s) now = (True, rl) \<Longrightarrow>
   send_for (maxRetries s) (providers s) 0 d rnd 0 = (Inr (Some st), k, tr) \<Longrightarrow>
   send s emailId d now rnd =
     (Inr (Some st),
      s\<lparr>sentEmails := insert emailId (sentEmails s),
        statusMap := (statusMap s)(emailId \<mapsto> st), rateLimiter := rl\<rparr>, tr)"
  by (simp add: send_def)

lemma send_failed:
  "emailId \<notin> sentEmails s \<Longrightarrow> isAllowed (rateLimiter s) now = (True, rl) \<Longrightarrow>
   send_for (maxRetries s) (providers s) 0 d rnd 0 = (Inr None, k, tr) \<Longrightarrow>
   send s emailId d now rnd =
     (Inr (Some (Failed (maxRetries s * int (length (providers s))))),
      s\<lparr>statusMap := (statusMap s)(emailId \<mapsto> Failed (maxRetries s * int (length (providers s)))),
        rateLimiter := rl\<rparr>, tr)"
  by (simp add: send_def)

text \<open>Every call of \<open>send\<close> takes one of the five branches.\<close>

lemma send_branches:
  "(emailId \<in> sentEmails s \<and> send s emailId d now rnd = (Inr (statusMap s emailId), s, []))
   \<or> (\<exists>rl. emailId \<notin> sentEmails s \<and> isAllowed (rateLimiter s) now = (False, rl) \<and>
        send s emailId d now rnd =
          (Inr (Some (Rate_limited 0)),
           s\<lparr>statusMap := (statusMap s)(emailId \<mapsto> Rate_limited 0), rateLimiter := rl\<rparr>, []))
   \<or> (\<exists>rl e k tr. emailId \<notin> sentEmails s \<and> isAllowed (rateLimiter s) now = (True, rl) \<and>
        send_for (maxRetries s) (providers s) 0 d rnd 0 = (Inl e, k, tr) \<and>
        send s emailId d now rnd = (Inl e, s\<lparr>rateLimiter := rl\<rparr>, tr))
   \<or> (\<exists>rl st k tr. emailId \<notin> sentEmails s \<and> isAllowed (rateLimiter s) now = (True, rl) \<and>
        send_for (maxRetries s) (providers s) 0 d rnd 0 = (Inr (Some st), k, tr) \<and>
        send s emailId d now rnd =
          (Inr (Some st),
           s\<lparr>sentEmails := insert emailId (sentEmails s),
             statusMap := (statusMap s)(emailId \<mapsto> st), rateLimiter := rl\<rparr>, tr))
   \<or> (\<exists>rl k tr. emailId \<notin> sentEmails s \<and> isAllowed (rateLimiter s) now = (True, rl) \<and>
        send_for (maxRetries s) (providers s) 0 d rnd 0 = (Inr None, k, tr) \<and>
        send s emailId d now rnd =
          (Inr (Some (Failed (maxRetries s * int (length (providers s))))),
           s\<lparr>statusMap := (statusMap s)(emailId \<mapsto> Failed (maxRetries s * int (length (providers s)))),
             rateLimiter := rl\<rparr>, tr))"
proof (cases "emailId \<in> sentEmails s")
  case True
  then show ?thesis by (simp add: send_skip)
next
  case False
  obtain b rl where a: "isAllowed (rateLimiter s) now = (b, rl)"
    by (cases "isAllowed (rateLimiter s) now")
  obtain r k tr where f: "send_for (maxRetries s) (providers s) 0 d rnd 0 = (r, k, tr)"
    by (cases "send_for (maxRetries s) (providers s) 0 d rnd 0")
  show ?thesis
  proof (cases b)
    case nb: False
    with False a show ?thesis by (simp add: send_limited)
  next
    case True
    show ?thesis
    proof (cases r)
      case (Inl e)
      with False a True f show ?thesis by (simp add: send_rejected)
    next
      case (Inr res)
      show ?thesis
      proof (cases res)
        case None
        with False a True f Inr show ?thesis by (simp add: send_failed)
      next
        case (Some st)
        with False a True f Inr show ?thesis by (simp add: send_sent)
      qed
    qed
  qed
qed

lemma isAllowed_config:
  "isAllowed rl now = (b, rl') \<Longrightarrow> limit rl' = limit rl \<and> intervalMs rl' = intervalMs rl"
  by (auto simp: isAllowed_def Let_def split: if_splits)

lemma send_config:
  "providers (fst (snd (send s emailId d now rnd))) = providers s"
  "maxRetries (fst (snd (send s emailId d now rnd))) = maxRetries s"
  "limit (rateLimiter (fst (snd (send s emailId d now rnd)))) = limit (rateLimiter s)"
  "intervalMs (rateLimiter (fst (snd (send s emailId d now rnd)))) = intervalMs (rateLimiter s)"
  using send_branches [of emailId s d now rnd]
  by (auto dest: isAllowed_config)

lemma send_for_Sent:
  "send_for maxR ps i d rnd k = (Inr (Some st), k', tr) \<Longrightarrow> \<exists>pn a. st = Sent pn a"
  using send_for_Some [of maxR ps i d rnd k st k' tr] by blast

lemma send_consistent:
  assumes "consistent s"
  shows "consistent (fst (snd (send s emailId d now rnd)))"
  using send_branches [of emailId s d now rnd] assms
  by (auto simp: consistent_def dest!: send_for_Sent split: if_splits)


lemma sends_config:
  "providers (sends s reqs) = providers s \<and> maxRetries (sends s reqs) = maxRetries s \<and>
   limit (rateLimiter (sends s reqs)) = limit (rateLimiter s) \<and>
   intervalMs (rateLimiter (sends s reqs)) = intervalMs (rateLimiter s)"
  by (induction s reqs rule: sends.induct) (simp_all add: send_config)

lemma sends_consistent: "consistent s \<Longrightarrow> consistent (sends s reqs)"
  by (induction s reqs rule: sends.induct) (simp_all add: send_consistent)


lemma EmailService_new_consistent: "consistent (EmailService_new p1 p2 m)"
  by (simp add: consistent_def EmailService_new_def)

section \<open>The loops on given draws\<close>

lemma send_while_exhaust:
  assumes "\<forall>j<nat (maxR - a). rnd (k + j) < failureRate p"
  shows "send_while maxR i p d rnd a delay k =
           (None, k + nat (maxR - a), retries i delay (nat (maxR - a)))"
proof -
  obtain r k' tr where w: "send_while maxR i p d rnd a delay k = (r, k', tr)"
    by (cases "send_while maxR i p d rnd a delay k")
  show ?thesis
  proof (cases r)
    case None
    with w send_while_None [of maxR i p d rnd a delay k k' tr] show ?thesis by simp
  next
    case (Some st)
    with w send_while_Some [of maxR i p d rnd a delay k st k' tr]
    obtain n where "a + int n < maxR" "\<not> rnd (k + n) < failureRate p" by auto
    moreover from this have "n < nat (maxR - a)" by linarith
    ultimately show ?thesis using assms by blast
  qed
qed

lemma send_while_success:
  assumes "\<forall>j<n. rnd (k + j) < failureRate p" and "\<not> rnd (k + n) < failureRate p"
    and "a + int n < maxR"
  shows "send_while maxR i p d rnd a delay k =
           (Some (Sent (name p) (a + int n + 1)), k + n + 1, retries i delay n @ [SendEmail i])"
proof -
  obtain r k' tr where w: "send_while maxR i p d rnd a delay k = (r, k', tr)"
    by (cases "send_while maxR i p d rnd a delay k")
  show ?thesis
  proof (cases r)
    case None
    with w send_while_None [of maxR i p d rnd a delay k k' tr]
    have "\<forall>j<nat (maxR - a). rnd (k + j) < failureRate p" by simp
    moreover have "n < nat (maxR - a)" using assms(3) by linarith
    ultimately show ?thesis using assms(2) by blast
  next
    case (Some st)
    with w send_while_Some [of maxR i p d rnd a delay k st k' tr]
    obtain n' where n': "st = Sent (name p) (a + int n' + 1)" "k' = k + n' + 1"
      "tr = retries i delay n' @ [SendEmail i]"
      "\<forall>j<n'. rnd (k + j) < failureRate p" "\<not> rnd (k + n') < failureRate p"
      by auto
    have "n' = n"
    proof (rule ccontr)
      assume "n' \<noteq> n"
      then consider "n' < n" | "n < n'" by linarith
      then show False using assms(1,2) n'(4,5) by cases blast+
    qed
    with n' w Some show ?thesis by simp
  qed
qed

lemma filter_retries:
  "filter (\<lambda>e. e = SendEmail j) (retries i d n) = (if i = j then replicate n (SendEmail j) else [])"
  by (induction i d n rule: retries.induct) auto

lemma filter_exhausted:
  "j \<notin> set js \<Longrightarrow> filter (\<lambda>e. e = SendEmail j) (exhausted js n) = []"
  by (induction js) (auto simp: exhausted_def filter_retries)

subsection \<open>Evaluating concrete runs\<close>

lemmas run_defs = emailService_def send_def EmailService_new_def RateLimiter_new_def isAllowed_def
  send_while.simps sendEmail_def MockProvider1_def MockProvider2_def always_def draws_def

lemma all_less_3: "(\<forall>k<3. P k) \<longleftrightarrow> P (0::nat) \<and> P 1 \<and> P 2"
  by (auto simp: numeral_3_eq_3 less_Suc_eq numeral_2_eq_2)

subsection \<open>Overlapping calls\<close>

text \<open>A call that no other call overlaps is its three parts in a row.\<close>

lemma send_in_phases:
  "send s emailId d now rnd =
     (case send_enter s emailId now of
        (Answered r, s') \<Rightarrow> (Inr r, s', [])
      | (Dispatching, s') \<Rightarrow>
          (case send_for (maxRetries s') (providers s') 0 d rnd 0 of
             (r, k, tr) \<Rightarrow> (case send_settle s' emailId r of (res, s'') \<Rightarrow> (res, s'', tr))))"
proof (cases "emailId \<in> sentEmails s")
  case True
  then show ?thesis by (simp add: send_def send_enter_def)
next
  case False
  obtain b rl where al: "isAllowed (rateLimiter s) now = (b, rl)"
    by (cases "isAllowed (rateLimiter s) now")
  obtain r k tr where f: "send_for (maxRetries s) (providers s) 0 d rnd 0 = (r, k, tr)"
    by (cases "send_for (maxRetries s) (providers s) 0 d rnd 0")
  show ?thesis
  proof (cases b)
    case nb: False
    with False al show ?thesis by (simp add: send_def send_enter_def)
  next
    case True
    with False al f show ?thesis
      by (cases r) (auto simp: send_def send_enter_def send_settle_def split: option.splits)
  qed
qed

lemmas phase_defs = overlapped_def send_enter_def send_settle_def

lemma overlapped_value:
  "overlapped = emailService\<lparr>sentEmails := {''email-1''},
         statusMap := [''email-1'' \<mapsto> Failed 6],
         rateLimiter := \<lparr>limit = 5, intervalMs = 10000, timestamps = [0, 1]\<rparr>\<rparr>"
  by (simp add: phase_defs run_defs)

section \<open>Idempotency\<close>



section \<open>Attempt accounting\<close>

text \<open>
  C2. When a call of \<open>send\<close> that is not answered from the stored status returns
  \<open>Sent\<close> with provider name \<open>pn\<close> and \<open>a\<close> attempts, there is a provider index \<open>j\<close> such
  that: \<open>pn\<close> is the name of provider \<open>j\<close>; the events are the providers before \<open>j\<close> each
  failing \<open>maxRetries\<close> times, then \<open>a - 1\<close> failed attempts on \<open>j\<close>, then the successful
  call of \<open>j\<close>; and \<open>a\<close> is the number of calls made to provider \<open>j\<close> alone, between 1 and
  \<open>maxRetries\<close>. In particular, with \<open>maxRetries = 3\<close>, a first provider \<open>A\<close> that fails on
  its three draws and a second provider \<open>B\<close> that fails on its first draw and succeeds on
  its second, the result is \<open>Sent\<close> with the name of \<open>B\<close> and 2 attempts.
\<close>

theorem sent_attempts_counted_per_provider:
  "(emailId \<notin> sentEmails s \<and> send s emailId d now rnd = (Inr (Some (Sent pn a)), s', tr) \<longrightarrow>
      (\<exists>j P. j < length (providers s) \<and> providers s ! j = Some P \<and> pn = name P \<and>
         1 \<le> a \<and> a \<le> maxRetries s \<and>
         tr = exhausted [0..<j] (nat (maxRetries s)) @ retries j 100 (nat (a - 1)) @ [SendEmail j] \<and>
         a = int (length (filter (\<lambda>e. e = SendEmail j) tr))))
   \<and> (providers s = [Some A, Some B] \<and> maxRetries s = 3 \<and> emailId \<notin> sentEmails s \<and>
      fst (isAllowed (rateLimiter s) now) \<and>
      (\<forall>k<3. rnd k < failureRate A) \<and> rnd 3 < failureRate B \<and> \<not> rnd 4 < failureRate B \<longrightarrow>
      fst (send s emailId d now rnd) = Inr (Some (Sent (name B) 2)))"
proof (intro conjI impI)
  assume h: "emailId \<notin> sentEmails s \<and> send s emailId d now rnd = (Inr (Some (Sent pn a)), s', tr)"
  with send_branches [of emailId s d now rnd]
  obtain k where f: "send_for (maxRetries s) (providers s) 0 d rnd 0 = (Inr (Some (Sent pn a)), k, tr)"
    by auto
  from send_for_Some [OF f]
  obtain j n P where jn: "j < length (providers s)" "providers s ! j = Some P"
    "int n < maxRetries s" "Sent pn a = Sent (name P) (int n + 1)"
    "tr = exhausted [0..<0 + j] (nat (maxRetries s)) @ retries (0 + j) 100 n @ [SendEmail (0 + j)]"
    by blast
  from jn(4) have a: "a = int n + 1" and pn: "pn = name P" by simp_all
  have n: "nat (a - 1) = n" using a by simp
  have cnt: "length (filter (\<lambda>e. e = SendEmail j) tr) = n + 1"
    using jn(5) by (simp add: filter_retries filter_exhausted)
  show "\<exists>j P. j < length (providers s) \<and> providers s ! j = Some P \<and> pn = name P \<and>
         1 \<le> a \<and> a \<le> maxRetries s \<and>
         tr = exhausted [0..<j] (nat (maxRetries s)) @ retries j 100 (nat (a - 1)) @ [SendEmail j] \<and>
         a = int (length (filter (\<lambda>e. e = SendEmail j) tr))"
    using jn(1,2,3,5) a pn n cnt by (intro exI [of _ j] exI [of _ P]) simp
next
  assume h: "providers s = [Some A, Some B] \<and> maxRetries s = 3 \<and> emailId \<notin> sentEmails s \<and>
      fst (isAllowed (rateLimiter s) now) \<and>
      (\<forall>k<3. rnd k < failureRate A) \<and> rnd 3 < failureRate B \<and> \<not> rnd 4 < failureRate B"
  then obtain rl where al: "isAllowed (rateLimiter s) now = (True, rl)"
    by (cases "isAllowed (rateLimiter s) now") auto
  have wa: "send_while 3 0 A d rnd 0 100 0 = (None, 0 + nat (3 - 0), retries 0 100 (nat (3 - 0)))"
    using h by (intro send_while_exhaust) simp
  have wb: "send_while 3 (Suc 0) B d rnd 0 100 3 =
      (Some (Sent (name B) (0 + int 1 + 1)), 3 + 1 + 1, retries (Suc 0) 100 1 @ [SendEmail (Suc 0)])"
    using h by (intro send_while_success) simp_all
  have "\<exists>k tr. send_for (maxRetries s) (providers s) 0 d rnd 0 = (Inr (Some (Sent (name B) 2)), k, tr)"
    using h wa wb by simp
  then show "fst (send s emailId d now rnd) = Inr (Some (Sent (name B) 2))"
    using h al by (auto simp: send_sent)
qed



theorem sent_attempts_counted_per_provider_witness:
  "''email-2'' \<notin> sentEmails emailService
   \<and> send emailService ''email-2'' ''Retry test'' 0 (draws [1/10, 1/10, 1/10, 1/10, 9/10]) =
      (Inr (Some (Sent ''MockProvider2'' 2)),
       emailService\<lparr>sentEmails := {''email-2''},
         statusMap := [''email-2'' \<mapsto> Sent ''MockProvider2'' 2],
         rateLimiter := \<lparr>limit = 5, intervalMs = 10000, timestamps = [0]\<rparr>\<rparr>,
       [SendEmail 0, SetTimeout 100, SendEmail 0, SetTimeout 200, SendEmail 0, SetTimeout 400,
        SendEmail 1, SetTimeout 100, SendEmail 1])
   \<and> providers emailService = [Some MockProvider1, Some MockProvider2]
   \<and> maxRetries emailService = 3
   \<and> fst (isAllowed (rateLimiter emailService) 0)
   \<and> draws [1/10, 1/10, 1/10, 1/10, 9/10] 0 < failureRate MockProvider1
   \<and> draws [1/10, 1/10, 1/10, 1/10, 9/10] 1 < failureRate MockProvider1
   \<and> draws [1/10, 1/10, 1/10, 1/10, 9/10] 2 < failureRate MockProvider1
   \<and> draws [1/10, 1/10, 1/10, 1/10, 9/10] 3 < failureRate MockProvider2
   \<and> \<not> draws [1/10, 1/10, 1/10, 1/10, 9/10] 4 < failureRate MockProvider2
   \<and> (\<exists>j P. j < length (providers emailService) \<and> providers emailService ! j = Some P \<and>
         ''MockProvider2'' = name P \<and>
         (2 :: int) = int (length (filter (\<lambda>e. e = SendEmail j)
           [SendEmail 0, SetTimeout 100, SendEmail 0, SetTimeout 200, SendEmail 0, SetTimeout 400,
            SendEmail 1, SetTimeout 100, SendEmail 1])))
   \<and> fst (send emailService ''email-2'' ''Retry test'' 0 (draws [1/10, 1/10, 1/10, 1/10, 9/10])) =
       Inr (Some (Sent (name MockProvider2) 2))"
proof -
  let ?rnd = "draws [1/10, 1/10, 1/10, 1/10, 9/10]"
  have h1: "''email-2'' \<notin> sentEmails emailService"
    by (simp add: emailService_def EmailService_new_def)
  have h2: "send emailService ''email-2'' ''Retry test'' 0 ?rnd =
      (Inr (Some (Sent ''MockProvider2'' 2)),
       emailService\<lparr>sentEmails := {''email-2''},
         statusMap := [''email-2'' \<mapsto> Sent ''MockProvider2'' 2],
         rateLimiter := \<lparr>limit = 5, intervalMs = 10000, timestamps = [0]\<rparr>\<rparr>,
       [SendEmail 0, SetTimeout 100, SendEmail 0, SetTimeout 200, SendEmail 0, SetTimeout 400,
        SendEmail 1, SetTimeout 100, SendEmail 1])"
    by (simp add: run_defs)
  have h3: "providers emailService = [Some MockProvider1, Some MockProvider2] \<and>
      maxRetries emailService = 3 \<and> ''email-2'' \<notin> sentEmails emailService \<and>
      fst (isAllowed (rateLimiter emailService) 0) \<and>
      (\<forall>k<3. ?rnd k < failureRate MockProvider1) \<and> ?rnd 3 < failureRate MockProvider2 \<and>
      \<not> ?rnd 4 < failureRate MockProvider2"
    by (simp add: run_defs all_less_3)
  note t = sent_attempts_counted_per_provider [of "''email-2''" emailService "''Retry test''" 0 ?rnd
      "''MockProvider2''" 2 _ _ MockProvider1 MockProvider2]
  from t [THEN conjunct1, THEN mp, OF conjI [OF h1 h2]] t [THEN conjunct2, THEN mp, OF h3] h1 h2 h3
  show ?thesis unfolding all_less_3 by blast
qed

text \<open>
  C3. When a call of \<open>send\<close> is not answered from the stored status, is admitted by the
  limiter, finds every provider defined, and every draw that the retry loops read makes
  the provider that reads it fail (draw \<open>j * maxRetries + m\<close> is attempt \<open>m\<close> of provider \<open>j\<close>),
  then the call returns \<open>Failed\<close> with \<open>attempts = maxRetries * (number of providers)\<close>,
  stores this status, and its events are every provider failing \<open>maxRetries\<close> times in
  order.
\<close>

theorem failed_attempts_is_product:
  assumes "emailId \<notin> sentEmails s" and "fst (isAllowed (rateLimiter s) now)"
    and "None \<notin> set (providers s)"
    and "\<forall>j<length (providers s). \<forall>m<nat (maxRetries s). \<forall>P.
           providers s ! j = Some P \<longrightarrow> rnd (j * nat (maxRetries s) + m) < failureRate P"
  shows "fst (send s emailId d now rnd) =
           Inr (Some (Failed (maxRetries s * int (length (providers s)))))
       \<and> statusMap (fst (snd (send s emailId d now rnd))) emailId =
           Some (Failed (maxRetries s * int (length (providers s))))
       \<and> snd (snd (send s emailId d now rnd)) =
           exhausted [0..<length (providers s)] (nat (maxRetries s))"
proof -
  obtain rl where al: "isAllowed (rateLimiter s) now = (True, rl)"
    using assms(2) by (cases "isAllowed (rateLimiter s) now") auto
  obtain r k tr where f: "send_for (maxRetries s) (providers s) 0 d rnd 0 = (r, k, tr)"
    by (cases "send_for (maxRetries s) (providers s) 0 d rnd 0")
  have "r = Inr None"
  proof (cases r)
    case (Inl e)
    with f send_for_Inl [of "maxRetries s" "providers s" 0 d rnd 0 e k tr] assms(3)
    show ?thesis by simp
  next
    case (Inr res)
    show ?thesis
    proof (cases res)
      case None
      with Inr show ?thesis by simp
    next
      case (Some st)
      with f Inr send_for_Some [of "maxRetries s" "providers s" 0 d rnd 0 st k tr]
      obtain j n P where jn: "j < length (providers s)" "providers s ! j = Some P"
        "int n < maxRetries s" "\<not> rnd (0 + j * nat (maxRetries s) + n) < failureRate P"
        by auto
      from jn(3) have "n < nat (maxRetries s)" by linarith
      with assms(4) jn(1,2) have "rnd (j * nat (maxRetries s) + n) < failureRate P" by blast
      with jn(4) show ?thesis by simp
    qed
  qed
  with f have f': "send_for (maxRetries s) (providers s) 0 d rnd 0 = (Inr None, k, tr)" by simp
  from send_for_None [OF f'] have "tr = exhausted [0..<length (providers s)] (nat (maxRetries s))"
    by simp
  then show ?thesis using send_failed [OF assms(1) al f'] by simp
qed

theorem failed_attempts_is_product_witness:
  "''email-2'' \<notin> sentEmails emailService
   \<and> fst (isAllowed (rateLimiter emailService) 0)
   \<and> None \<notin> set (providers emailService)
   \<and> always (1/10) 0 < failureRate MockProvider1
   \<and> always (1/10) 3 < failureRate MockProvider2
   \<and> fst (send emailService ''email-2'' ''Retry test'' 0 (always (1/10))) = Inr (Some (Failed 6))
   \<and> statusMap (fst (snd (send emailService ''email-2'' ''Retry test'' 0 (always (1/10)))))
        ''email-2'' = Some (Failed 6)"
proof -
  have h1: "''email-2'' \<notin> sentEmails emailService"
    by (simp add: emailService_def EmailService_new_def)
  have h2: "fst (isAllowed (rateLimiter emailService) 0)"
    by (simp add: run_defs)
  have h3: "None \<notin> set (providers emailService)"
    by (simp add: emailService_def EmailService_new_def)
  have h4: "\<forall>j<length (providers emailService). \<forall>m<nat (maxRetries emailService). \<forall>P.
         providers emailService ! j = Some P \<longrightarrow>
         always (1/10) (j * nat (maxRetries emailService) + m) < failureRate P"
    by (auto simp: emailService_def EmailService_new_def less_Suc_eq always_def
        MockProvider1_def MockProvider2_def)
  have v: "maxRetries emailService * int (length (providers emailService)) = 6"
    by (simp add: emailService_def EmailService_new_def)
  have h5: "always (1/10) 0 < failureRate MockProvider1 \<and> always (1/10) 3 < failureRate MockProvider2"
    by (simp add: always_def MockProvider1_def MockProvider2_def)
  from failed_attempts_is_product [OF h1 h2 h3 h4, of "''Retry test''"] h1 h2 h3 h5
  show ?thesis unfolding v by blast
qed

section \<open>Failover\<close>

text \<open>
  C6, as the specification states it, fails: with the default \<open>maxRetries = 3\<close>, a first
  provider that always fails and a second that succeeds on its first attempt, the result
  is \<open>Sent\<close> with 1 attempt, not with \<open>maxRetries + 1 = 4\<close>.
\<close>

theorem failover_attempts_counterexample:
  "fst (send (EmailService_new (Some \<lparr>name = ''A'', failureRate = 1\<rparr>)
               (Some \<lparr>name = ''B'', failureRate = 0\<rparr>) None)
          ''email-1'' ''Hello'' 0 (always (1/2))) = Inr (Some (Sent ''B'' 1))
   \<and> fst (send (EmailService_new (Some \<lparr>name = ''A'', failureRate = 1\<rparr>)
               (Some \<lparr>name = ''B'', failureRate = 0\<rparr>) None)
          ''email-1'' ''Hello'' 0 (always (1/2))) \<noteq> Inr (Some (Sent ''B'' (3 + 1)))"
  by (simp add: run_defs)

text \<open>
  C6, amended. With two providers and \<open>maxRetries > 0\<close>, when the first provider fails on
  each of its \<open>maxRetries\<close> draws and the second succeeds on its first draw, a call that is
  not answered from the stored status and is admitted by the limiter calls the first
  provider \<open>maxRetries\<close> times, then the second once, and returns \<open>Sent\<close> with the name of the
  second provider and \<open>attempts = 1\<close>: the attempts are counted on the successful provider
  alone.
\<close>

theorem failover_in_order:
  assumes "providers s = [Some A, Some B]" and "0 < maxRetries s"
    and "emailId \<notin> sentEmails s" and "fst (isAllowed (rateLimiter s) now)"
    and "\<forall>k<nat (maxRetries s). rnd k < failureRate A"
    and "\<not> rnd (nat (maxRetries s)) < failureRate B"
  shows "fst (send s emailId d now rnd) = Inr (Some (Sent (name B) 1))
       \<and> snd (snd (send s emailId d now rnd)) =
           retries 0 100 (nat (maxRetries s)) @ [SendEmail 1]"
proof -
  obtain rl where al: "isAllowed (rateLimiter s) now = (True, rl)"
    using assms(4) by (cases "isAllowed (rateLimiter s) now") auto
  let ?M = "maxRetries s"
  have wa: "send_while ?M 0 A d rnd 0 100 0 = (None, 0 + nat (?M - 0), retries 0 100 (nat (?M - 0)))"
    using assms(5) by (intro send_while_exhaust) simp
  have wb: "send_while ?M (Suc 0) B d rnd 0 100 (nat ?M) =
      (Some (Sent (name B) (0 + int 0 + 1)), nat ?M + 0 + 1, retries (Suc 0) 100 0 @ [SendEmail (Suc 0)])"
    using assms(2,6) by (intro send_while_success) simp_all
  have f: "send_for ?M (providers s) 0 d rnd 0 =
      (Inr (Some (Sent (name B) 1)), nat ?M + 1, retries 0 100 (nat ?M) @ [SendEmail 1])"
    using assms(1) wa wb by simp
  show ?thesis using send_sent [OF assms(3) al f] by simp
qed

theorem failover_in_order_witness:
  "providers emailService = [Some MockProvider1, Some MockProvider2]
   \<and> 0 < maxRetries emailService
   \<and> ''email-2'' \<notin> sentEmails emailService
   \<and> fst (isAllowed (rateLimiter emailService) 0)
   \<and> draws [1/10, 2/10, 3/10, 6/10] 0 < failureRate MockProvider1
   \<and> draws [1/10, 2/10, 3/10, 6/10] 1 < failureRate MockProvider1
   \<and> draws [1/10, 2/10, 3/10, 6/10] 2 < failureRate MockProvider1
   \<and> \<not> draws [1/10, 2/10, 3/10, 6/10] (nat (maxRetries emailService)) < failureRate MockProvider2
   \<and> fst (send emailService ''email-2'' ''Retry test'' 0 (draws [1/10, 2/10, 3/10, 6/10])) =
       Inr (Some (Sent ''MockProvider2'' 1))
   \<and> snd (snd (send emailService ''email-2'' ''Retry test'' 0 (draws [1/10, 2/10, 3/10, 6/10]))) =
       [SendEmail 0, SetTimeout 100, SendEmail 0, SetTimeout 200, SendEmail 0, SetTimeout 400,
        SendEmail 1]"
proof -
  let ?rnd = "draws [1/10, 2/10, 3/10, 6/10]"
  have m: "maxRetries emailService = 3" by (simp add: emailService_def EmailService_new_def)
  have h1: "providers emailService = [Some MockProvider1, Some MockProvider2]"
    by (simp add: emailService_def EmailService_new_def)
  have h2: "0 < maxRetries emailService" by (simp add: m)
  have h3: "''email-2'' \<notin> sentEmails emailService"
    by (simp add: emailService_def EmailService_new_def)
  have h4: "fst (isAllowed (rateLimiter emailService) 0)" by (simp add: run_defs)
  have h5: "\<forall>k<nat (maxRetries emailService). ?rnd k < failureRate MockProvider1"
    by (simp add: m all_less_3 draws_def MockProvider1_def)
  have h6: "\<not> ?rnd (nat (maxRetries emailService)) < failureRate MockProvider2"
    by (simp add: m draws_def MockProvider2_def)
  have n: "name MockProvider2 = ''MockProvider2''" by (simp add: MockProvider2_def)
  have r: "retries 0 100 (nat (maxRetries emailService)) @ [SendEmail 1] =
       [SendEmail 0, SetTimeout 100, SendEmail 0, SetTimeout 200, SendEmail 0, SetTimeout 400,
        SendEmail 1]"
    by (simp add: m numeral_3_eq_3)
  have h7: "?rnd 0 < failureRate MockProvider1 \<and> ?rnd 1 < failureRate MockProvider1 \<and>
      ?rnd 2 < failureRate MockProvider1"
    by (simp add: draws_def MockProvider1_def)
  from failover_in_order [OF h1 h2 h3 h4 h5 h6, of "''Retry test''"] h1 h2 h3 h4 h6 h7
  show ?thesis unfolding n r by blast
qed

section \<open>Backoff\<close>

text \<open>
  C4, evaluated on the driver's service with the default \<open>maxRetries = 3\<close> and draws on
  which both providers fail every attempt. The timeouts of each provider are 100, 200, 400:
  they start at 100 and double, and none precedes a provider's first attempt. But a timeout
  follows every failed attempt, the last one of a provider included: the timeout of 400
  after the third attempt of provider 0 is waited before the switch to provider 1, and the
  timeout of 400 after the third attempt of provider 1 is waited before \<open>Failed\<close> is
  returned.
\<close>

theorem backoff_after_every_failure:
  "send emailService ''email-2'' ''Retry test'' 0 (always (1/10)) =
     (Inr (Some (Failed 6)),
      emailService\<lparr>statusMap := [''email-2'' \<mapsto> Failed 6],
        rateLimiter := \<lparr>limit = 5, intervalMs = 10000, timestamps = [0]\<rparr>\<rparr>,
      [SendEmail 0, SetTimeout 100, SendEmail 0, SetTimeout 200, SendEmail 0, SetTimeout 400,
       SendEmail 1, SetTimeout 100, SendEmail 1, SetTimeout 200, SendEmail 1, SetTimeout 400])"
  by (simp add: run_defs)

section \<open>Identities that were not sent\<close>

text \<open>
  C7, as the specification states it, fails. After the two overlapping calls above the
  stored status of \<open>email-1\<close> is \<open>Failed\<close>, and the identity is in \<open>sentEmails\<close>. A later
  call of \<open>send\<close> with this identity, at a reading where the limiter would admit it and
  with draws on which the first provider would succeed, is answered from the store: it
  returns the stored \<open>Failed\<close>, leaves the limiter as it is and calls no provider.
\<close>

theorem stored_failed_is_answered_counterexample:
  "statusMap overlapped ''email-1'' = Some (Failed 6)
   \<and> fst (isAllowed (rateLimiter overlapped) 2000)
   \<and> send overlapped ''email-1'' ''Again'' 2000 (always 1) = (Inr (Some (Failed 6)), overlapped, [])"
  by (simp add: phase_defs run_defs)

text \<open>
  C7, amended. The test that answers a call from the store is membership in \<open>sentEmails\<close>,
  not the stored status. Let the stored status of an identity be \<open>Rate_limited\<close> or
  \<open>Failed\<close>. In every state that the service reaches from its constructor by calls of
  \<open>send\<close> awaited one after the other, the identity is not in \<open>sentEmails\<close>. In any state
  where it is not in \<open>sentEmails\<close>, a call of \<open>send\<close> with this identity is not answered from
  the store: its first part asks the limiter again and goes on to the provider loop exactly
  when the check admits; the limiter keeps the state of that check; when the check denies,
  the call stores and returns \<open>Rate_limited\<close> with 0 attempts and calls no provider; when it
  admits, the events and the outcome are those of the provider loop (its end without
  success being \<open>Failed\<close>), and the status that the call returns replaces the stored one.
  The last part of a call stores the status it returns on whatever service it finds.
\<close>

theorem unsent_identity_is_dispatched_again:
  assumes "statusMap s emailId = Some st" and "st = Rate_limited a \<or> st = Failed a"
  shows "(s = sends (EmailService_new p1 p2 m) reqs \<longrightarrow> emailId \<notin> sentEmails s)
       \<and> (emailId \<notin> sentEmails s \<longrightarrow>
            fst (send_enter s emailId now) =
              (if fst (isAllowed (rateLimiter s) now) then Dispatching
               else Answered (Some (Rate_limited 0))) \<and>
            rateLimiter (fst (snd (send s emailId d now rnd))) = snd (isAllowed (rateLimiter s) now) \<and>
            (\<not> fst (isAllowed (rateLimiter s) now) \<longrightarrow>
               send s emailId d now rnd =
                 (Inr (Some (Rate_limited 0)),
                  s\<lparr>statusMap := (statusMap s)(emailId \<mapsto> Rate_limited 0),
                    rateLimiter := snd (isAllowed (rateLimiter s) now)\<rparr>, [])) \<and>
            (fst (isAllowed (rateLimiter s) now) \<longrightarrow>
               snd (snd (send s emailId d now rnd)) =
                 snd (snd (send_for (maxRetries s) (providers s) 0 d rnd 0)) \<and>
               fst (send s emailId d now rnd) =
                 (case fst (send_for (maxRetries s) (providers s) 0 d rnd 0) of
                    Inl e \<Rightarrow> Inl e
                  | Inr None \<Rightarrow> Inr (Some (Failed (maxRetries s * int (length (providers s)))))
                  | Inr (Some st') \<Rightarrow> Inr (Some st')) \<and>
               (\<forall>st'. fst (send s emailId d now rnd) = Inr (Some st') \<longrightarrow>
                      statusMap (fst (snd (send s emailId d now rnd))) emailId = Some st')))
       \<and> (\<forall>st'. fst (send_settle s' emailId r) = Inr (Some st') \<longrightarrow>
                statusMap (snd (send_settle s' emailId r)) emailId = Some st')"
proof (intro conjI impI)
  assume r: "s = sends (EmailService_new p1 p2 m) reqs"
  have "consistent s"
    unfolding r by (rule sends_consistent) (rule EmailService_new_consistent)
  with assms show "emailId \<notin> sentEmails s" by (auto simp: consistent_def)
next
  show "\<forall>st'. fst (send_settle s' emailId r) = Inr (Some st') \<longrightarrow>
                statusMap (snd (send_settle s' emailId r)) emailId = Some st'"
    by (auto simp: send_settle_def split: sum.splits option.splits)
next
  assume ns: "emailId \<notin> sentEmails s"
  show "fst (send_enter s emailId now) =
              (if fst (isAllowed (rateLimiter s) now) then Dispatching
               else Answered (Some (Rate_limited 0)))"
    using ns by (auto simp: send_enter_def split: prod.splits bool.splits)
next
  assume ns: "emailId \<notin> sentEmails s"
  show "rateLimiter (fst (snd (send s emailId d now rnd))) = snd (isAllowed (rateLimiter s) now)"
    using send_branches [of emailId s d now rnd] ns by auto
next
  assume ns: "emailId \<notin> sentEmails s" and "\<not> fst (isAllowed (rateLimiter s) now)"
  then obtain rl where "isAllowed (rateLimiter s) now = (False, rl)"
    by (cases "isAllowed (rateLimiter s) now") auto
  with send_limited [OF ns this, of d rnd]
  show "send s emailId d now rnd =
                 (Inr (Some (Rate_limited 0)),
                  s\<lparr>statusMap := (statusMap s)(emailId \<mapsto> Rate_limited 0),
                    rateLimiter := snd (isAllowed (rateLimiter s) now)\<rparr>, [])"
    by simp
next
  assume ns: "emailId \<notin> sentEmails s" and a: "fst (isAllowed (rateLimiter s) now)"
  from a obtain rl where al: "isAllowed (rateLimiter s) now = (True, rl)"
    by (cases "isAllowed (rateLimiter s) now") auto
  show "snd (snd (send s emailId d now rnd)) =
                 snd (snd (send_for (maxRetries s) (providers s) 0 d rnd 0))"
    using send_branches [of emailId s d now rnd] ns al by auto
next
  assume ns: "emailId \<notin> sentEmails s" and a: "fst (isAllowed (rateLimiter s) now)"
  from a obtain rl where al: "isAllowed (rateLimiter s) now = (True, rl)"
    by (cases "isAllowed (rateLimiter s) now") auto
  show "fst (send s emailId d now rnd) =
                 (case fst (send_for (maxRetries s) (providers s) 0 d rnd 0) of
                    Inl e \<Rightarrow> Inl e
                  | Inr None \<Rightarrow> Inr (Some (Failed (maxRetries s * int (length (providers s)))))
                  | Inr (Some st') \<Rightarrow> Inr (Some st'))"
    using send_branches [of emailId s d now rnd] ns al by auto
next
  assume ns: "emailId \<notin> sentEmails s" and a: "fst (isAllowed (rateLimiter s) now)"
  show "\<forall>st'. fst (send s emailId d now rnd) = Inr (Some st') \<longrightarrow>
                      statusMap (fst (snd (send s emailId d now rnd))) emailId = Some st'"
    using send_branches [of emailId s d now rnd] ns by auto
qed

theorem unsent_identity_is_dispatched_again_witness:
  "statusMap (sends emailService [(''email-2'', ''Retry test'', 0, always (1/10))]) ''email-2'' =
     Some (Failed 6)
   \<and> ''email-2'' \<notin> sentEmails (sends emailService [(''email-2'', ''Retry test'', 0, always (1/10))])
   \<and> fst (isAllowed (rateLimiter (sends emailService [(''email-2'', ''Retry test'', 0, always (1/10))])) 1)
   \<and> fst (send_enter (sends emailService [(''email-2'', ''Retry test'', 0, always (1/10))]) ''email-2'' 1) =
       Dispatching
   \<and> rateLimiter (fst (snd (send (sends emailService [(''email-2'', ''Retry test'', 0, always (1/10))])
        ''email-2'' ''Retry test'' 1 (always 1)))) =
       snd (isAllowed (rateLimiter (sends emailService [(''email-2'', ''Retry test'', 0, always (1/10))])) 1)
   \<and> timestamps (rateLimiter (fst (snd (send (sends emailService [(''email-2'', ''Retry test'', 0, always (1/10))])
        ''email-2'' ''Retry test'' 1 (always 1))))) = [0, 1]
   \<and> fst (send (sends emailService [(''email-2'', ''Retry test'', 0, always (1/10))])
        ''email-2'' ''Retry test'' 1 (always 1)) = Inr (Some (Sent ''MockProvider1'' 1))
   \<and> statusMap (fst (snd (send (sends emailService [(''email-2'', ''Retry test'', 0, always (1/10))])
        ''email-2'' ''Retry test'' 1 (always 1)))) ''email-2'' = Some (Sent ''MockProvider1'' 1)
   \<and> statusMap (snd (send_settle overlapped ''email-2'' (Inr None))) ''email-2'' = Some (Failed 6)"
proof -
  let ?s = "sends emailService [(''email-2'', ''Retry test'', 0, always (1/10))]"
  have h1: "?s = sends (EmailService_new (Some MockProvider1) (Some MockProvider2) None)
      [(''email-2'', ''Retry test'', 0, always (1/10))]"
    by (simp only: emailService_def)
  have h2: "statusMap ?s ''email-2'' = Some (Failed 6)" by (simp add: run_defs)
  have h3: "Failed 6 = Rate_limited 6 \<or> Failed 6 = Failed 6" by simp
  have e1: "fst (isAllowed (rateLimiter ?s) 1)" by (simp add: run_defs)
  have e2: "fst (send ?s ''email-2'' ''Retry test'' 1 (always 1)) = Inr (Some (Sent ''MockProvider1'' 1))"
    by (simp add: run_defs)
  have e3: "timestamps (rateLimiter (fst (snd (send ?s ''email-2'' ''Retry test'' 1 (always 1))))) = [0, 1]"
    by (simp add: run_defs)
  have e4: "fst (send_settle overlapped ''email-2'' (Inr None)) = Inr (Some (Failed 6))"
    by (simp add: phase_defs run_defs)
  note t = unsent_identity_is_dispatched_again [OF h2 h3, where ?p1.0 = "Some MockProvider1" and ?p2.0 = "Some MockProvider2"
      and m = None and reqs = "[(''email-2'', ''Retry test'', 0, always (1/10))]" and now = 1
      and d = "''Retry test''" and rnd = "always 1" and s' = overlapped and r = "Inr None"]
  from t [THEN conjunct1, THEN mp, OF h1]
  have ns: "''email-2'' \<notin> sentEmails ?s" .
  from t [THEN conjunct2, THEN conjunct1, THEN mp, OF ns] t [THEN conjunct2, THEN conjunct2]
    h2 ns e1 e2 e3 e4
  show ?thesis by (simp only: if_True) blast
qed

section \<open>Construction\<close>

text \<open>
  C9, as the specification states it, fails: the constructor called without providers
  returns a service, whose two providers are \<open>undefined\<close>; the failure comes at send time,
  as the rejection of the first call of \<open>send\<close> with a \<open>TypeError\<close>.
\<close>

theorem construction_without_providers_counterexample:
  "providers (EmailService_new None None None) = [None, None]
   \<and> fst (send (EmailService_new None None None) ''email-1'' ''Hello'' 0 (always 0)) = Inl TypeError"
  by (simp add: run_defs)

text \<open>
  C9, amended. The constructor checks nothing: it returns a service whose provider list is
  its two provider arguments as they come, missing or not, and the new service answers no
  call from the store and admits its first call. A missing provider shows at send time
  only, in a call that is not answered from the store and is admitted by the limiter, when
  the provider loop reaches it. When the first provider is missing, the call takes a slot of
  the limiter and is rejected with a \<open>TypeError\<close>, before any provider is called and with no
  status stored. When only the second is missing and the first provider fails on each of
  its \<open>maxRetries\<close> draws, the call is rejected with a \<open>TypeError\<close> after these attempts,
  with the slot taken and no status stored. When only the second is missing and the first
  provider succeeds on one of its \<open>maxRetries\<close> draws, the call returns and stores \<open>Sent\<close>
  and no error shows.
\<close>

theorem missing_provider_fails_at_send:
  "providers (EmailService_new p1 p2 m) = [p1, p2]
   \<and> emailId \<notin> sentEmails (EmailService_new p1 p2 m)
   \<and> fst (isAllowed (rateLimiter (EmailService_new p1 p2 m)) now)
   \<and> (emailId \<notin> sentEmails s \<and> fst (isAllowed (rateLimiter s) now) \<and>
      providers s = [None, p2] \<longrightarrow>
        send s emailId d now rnd =
          (Inl TypeError, s\<lparr>rateLimiter := snd (isAllowed (rateLimiter s) now)\<rparr>, []))
   \<and> (emailId \<notin> sentEmails s \<and> fst (isAllowed (rateLimiter s) now) \<and>
      providers s = [Some A, None] \<and> (\<forall>k<nat (maxRetries s). rnd k < failureRate A) \<longrightarrow>
        send s emailId d now rnd =
          (Inl TypeError, s\<lparr>rateLimiter := snd (isAllowed (rateLimiter s) now)\<rparr>,
           retries 0 100 (nat (maxRetries s))))
   \<and> (emailId \<notin> sentEmails s \<and> fst (isAllowed (rateLimiter s) now) \<and>
      providers s = [Some A, None] \<and> (\<forall>k<n. rnd k < failureRate A) \<and>
      \<not> rnd n < failureRate A \<and> int n < maxRetries s \<longrightarrow>
        send s emailId d now rnd =
          (Inr (Some (Sent (name A) (int n + 1))),
           s\<lparr>sentEmails := insert emailId (sentEmails s),
             statusMap := (statusMap s)(emailId \<mapsto> Sent (name A) (int n + 1)),
             rateLimiter := snd (isAllowed (rateLimiter s) now)\<rparr>,
           retries 0 100 n @ [SendEmail 0]))"
proof (intro conjI impI)
  show "providers (EmailService_new p1 p2 m) = [p1, p2]"
    by (simp add: EmailService_new_def)
  show "emailId \<notin> sentEmails (EmailService_new p1 p2 m)"
    by (simp add: EmailService_new_def)
  show "fst (isAllowed (rateLimiter (EmailService_new p1 p2 m)) now)"
    by (simp add: EmailService_new_def RateLimiter_new_def isAllowed_def)
next
  assume h: "emailId \<notin> sentEmails s \<and> fst (isAllowed (rateLimiter s) now) \<and>
      providers s = [None, p2]"
  then obtain rl where al: "isAllowed (rateLimiter s) now = (True, rl)"
    by (cases "isAllowed (rateLimiter s) now") auto
  have f: "send_for (maxRetries s) (providers s) 0 d rnd 0 = (Inl TypeError, 0, [])"
    using h by simp
  from h have ns: "emailId \<notin> sentEmails s" by simp
  show "send s emailId d now rnd =
          (Inl TypeError, s\<lparr>rateLimiter := snd (isAllowed (rateLimiter s) now)\<rparr>, [])"
    using send_rejected [OF ns al f] al by simp
next
  assume h: "emailId \<notin> sentEmails s \<and> fst (isAllowed (rateLimiter s) now) \<and>
      providers s = [Some A, None] \<and> (\<forall>k<nat (maxRetries s). rnd k < failureRate A)"
  then obtain rl where al: "isAllowed (rateLimiter s) now = (True, rl)"
    by (cases "isAllowed (rateLimiter s) now") auto
  let ?M = "maxRetries s"
  have wa: "send_while ?M 0 A d rnd 0 100 0 = (None, 0 + nat (?M - 0), retries 0 100 (nat (?M - 0)))"
    using h by (intro send_while_exhaust) simp
  have f: "send_for ?M (providers s) 0 d rnd 0 = (Inl TypeError, nat ?M, retries 0 100 (nat ?M))"
    using h wa by simp
  from h have ns: "emailId \<notin> sentEmails s" by simp
  show "send s emailId d now rnd =
          (Inl TypeError, s\<lparr>rateLimiter := snd (isAllowed (rateLimiter s) now)\<rparr>,
           retries 0 100 (nat (maxRetries s)))"
    using send_rejected [OF ns al f] al by simp
next
  assume h: "emailId \<notin> sentEmails s \<and> fst (isAllowed (rateLimiter s) now) \<and>
      providers s = [Some A, None] \<and> (\<forall>k<n. rnd k < failureRate A) \<and>
      \<not> rnd n < failureRate A \<and> int n < maxRetries s"
  then obtain rl where al: "isAllowed (rateLimiter s) now = (True, rl)"
    by (cases "isAllowed (rateLimiter s) now") auto
  let ?M = "maxRetries s"
  have wa: "send_while ?M 0 A d rnd 0 100 0 =
      (Some (Sent (name A) (0 + int n + 1)), 0 + n + 1, retries 0 100 n @ [SendEmail 0])"
    using h by (intro send_while_success) simp_all
  have f: "send_for ?M (providers s) 0 d rnd 0 =
      (Inr (Some (Sent (name A) (int n + 1))), n + 1, retries 0 100 n @ [SendEmail 0])"
    using h wa by simp
  from h have ns: "emailId \<notin> sentEmails s" by simp
  show "send s emailId d now rnd =
          (Inr (Some (Sent (name A) (int n + 1))),
           s\<lparr>sentEmails := insert emailId (sentEmails s),
             statusMap := (statusMap s)(emailId \<mapsto> Sent (name A) (int n + 1)),
             rateLimiter := snd (isAllowed (rateLimiter s) now)\<rparr>,
           retries 0 100 n @ [SendEmail 0])"
    using send_sent [OF ns al f] al by simp
qed


theorem missing_provider_fails_at_send_witness:
  "send (EmailService_new None None None) ''email-1'' ''Hello'' 0 (always 1) =
     (Inl TypeError,
      (EmailService_new None None None)\<lparr>rateLimiter :=
         \<lparr>limit = 5, intervalMs = 10000, timestamps = [0]\<rparr>\<rparr>, [])
   \<and> send (EmailService_new (Some MockProvider1) None None) ''email-1'' ''Hello'' 0 (always (1/10)) =
     (Inl TypeError,
      (EmailService_new (Some MockProvider1) None None)\<lparr>rateLimiter :=
         \<lparr>limit = 5, intervalMs = 10000, timestamps = [0]\<rparr>\<rparr>,
      [SendEmail 0, SetTimeout 100, SendEmail 0, SetTimeout 200, SendEmail 0, SetTimeout 400])
   \<and> fst (send (EmailService_new (Some MockProvider1) None None) ''email-1'' ''Hello'' 0 (always 1)) =
       Inr (Some (Sent ''MockProvider1'' 1))"
proof -
  let ?s0 = "EmailService_new None None None"
  let ?s1 = "EmailService_new (Some MockProvider1) None None"
  have a0: "''email-1'' \<notin> sentEmails ?s0 \<and> fst (isAllowed (rateLimiter ?s0) 0) \<and>
      providers ?s0 = [None, None]"
    by (simp add: run_defs)
  have a1: "''email-1'' \<notin> sentEmails ?s1 \<and> fst (isAllowed (rateLimiter ?s1) 0) \<and>
      providers ?s1 = [Some MockProvider1, None] \<and>
      (\<forall>k<nat (maxRetries ?s1). always (1/10) k < failureRate MockProvider1)"
    by (simp add: run_defs)
  have a2: "''email-1'' \<notin> sentEmails ?s1 \<and> fst (isAllowed (rateLimiter ?s1) 0) \<and>
      providers ?s1 = [Some MockProvider1, None] \<and>
      (\<forall>k<0. always 1 k < failureRate MockProvider1) \<and>
      \<not> always 1 0 < failureRate MockProvider1 \<and> int 0 < maxRetries ?s1"
    by (simp add: run_defs)
  have v0: "snd (isAllowed (rateLimiter ?s0) 0) = \<lparr>limit = 5, intervalMs = 10000, timestamps = [0]\<rparr>"
    and v1: "snd (isAllowed (rateLimiter ?s1) 0) = \<lparr>limit = 5, intervalMs = 10000, timestamps = [0]\<rparr>"
    and v2: "retries 0 100 (nat (maxRetries ?s1)) =
      [SendEmail 0, SetTimeout 100, SendEmail 0, SetTimeout 200, SendEmail 0, SetTimeout 400]"
    and v3: "name MockProvider1 = ''MockProvider1''"
    by (simp_all add: run_defs numeral_3_eq_3)
  note t0 = missing_provider_fails_at_send [where emailId = "''email-1''" and now = 0 and s = ?s0 and ?p2.0 = None
      and d = "''Hello''" and rnd = "always 1"]
  note t1 = missing_provider_fails_at_send [where emailId = "''email-1''" and now = 0 and s = ?s1
      and d = "''Hello''" and rnd = "always (1/10)" and A = MockProvider1]
  note t2 = missing_provider_fails_at_send [where emailId = "''email-1''" and now = 0 and s = ?s1
      and d = "''Hello''" and rnd = "always 1" and A = MockProvider1 and n = 0]
  from t0 [THEN conjunct2, THEN conjunct2, THEN conjunct2, THEN conjunct1, THEN mp, OF a0]
    t1 [THEN conjunct2, THEN conjunct2, THEN conjunct2, THEN conjunct2, THEN conjunct1, THEN mp, OF a1]
    t2 [THEN conjunct2, THEN conjunct2, THEN conjunct2, THEN conjunct2, THEN conjunct2, THEN mp, OF a2]
  show ?thesis unfolding v0 v1 v2 v3 by simp
qed

text \<open>
  C10. In every state \<open>s\<close> that the service reaches from \<open>new EmailService(p1, p2, m)\<close> by
  calls of \<open>send\<close>, whatever the three arguments: the provider list is \<open>[p1, p2]\<close>, of
  length 2; the limiter has limit 5 and interval 10000; \<open>maxRetries\<close> is \<open>m\<close>, or 3 when \<open>m\<close>
  is left out; and every \<open>Failed\<close> status that \<open>send\<close> returns has
  \<open>attempts = maxRetries * 2\<close>. The constructor has no other parameter, and the first
  timeout of each provider is the constant 100.
\<close>

theorem configuration_is_fixed:
  assumes "s = sends (EmailService_new p1 p2 m) reqs"
  shows "providers s = [p1, p2] \<and> length (providers s) = 2
       \<and> limit (rateLimiter s) = 5 \<and> intervalMs (rateLimiter s) = 10000
       \<and> maxRetries s = (case m of None \<Rightarrow> 3 | Some k \<Rightarrow> k)
       \<and> (fst (send s emailId d now rnd) = Inr (Some (Failed a)) \<longrightarrow> a = maxRetries s * 2)"
proof -
  have cfg: "providers s = [p1, p2]" "limit (rateLimiter s) = 5"
    "intervalMs (rateLimiter s) = 10000" "maxRetries s = (case m of None \<Rightarrow> 3 | Some k \<Rightarrow> k)"
    unfolding assms using sends_config [of "EmailService_new p1 p2 m" reqs]
    by (simp_all add: EmailService_new_def RateLimiter_new_def)
  have c: "consistent s"
    unfolding assms by (rule sends_consistent) (rule EmailService_new_consistent)
  have "a = maxRetries s * 2" if r: "fst (send s emailId d now rnd) = Inr (Some (Failed a))"
    using send_branches [of emailId s d now rnd] r c cfg(1)
    by (auto simp: consistent_def dest!: send_for_Sent)
  with cfg show ?thesis by simp
qed

theorem configuration_is_fixed_witness:
  "providers (sends (EmailService_new (Some MockProvider1) (Some MockProvider2) (Some 1))
       [(''email-1'', ''Hello'', 0, always 1)]) = [Some MockProvider1, Some MockProvider2]
   \<and> limit (rateLimiter (sends (EmailService_new (Some MockProvider1) (Some MockProvider2) (Some 1))
       [(''email-1'', ''Hello'', 0, always 1)])) = 5
   \<and> intervalMs (rateLimiter (sends (EmailService_new (Some MockProvider1) (Some MockProvider2) (Some 1))
       [(''email-1'', ''Hello'', 0, always 1)])) = 10000
   \<and> fst (send (sends (EmailService_new (Some MockProvider1) (Some MockProvider2) (Some 1))
       [(''email-1'', ''Hello'', 0, always 1)]) ''email-2'' ''Retry test'' 1 (always 0)) =
       Inr (Some (Failed 2))
   \<and> (2 :: int) = maxRetries (sends (EmailService_new (Some MockProvider1) (Some MockProvider2) (Some 1))
       [(''email-1'', ''Hello'', 0, always 1)]) * 2"
proof -
  let ?s = "sends (EmailService_new (Some MockProvider1) (Some MockProvider2) (Some 1))
       [(''email-1'', ''Hello'', 0, always 1)]"
  have h: "?s = ?s" by (rule refl)
  have e: "fst (send ?s ''email-2'' ''Retry test'' 1 (always 0)) = Inr (Some (Failed 2))"
    by (simp add: run_defs)
  from configuration_is_fixed [OF h, of "''email-2''" "''Retry test''" 1 "always 0" 2] e
  show ?thesis by blast
qed

end
